theory Spec2Isabelle
  imports Complex_Main "HOL-Library.AList" "HOL-Library.Sublist"
begin

section \<open>Data model of the notebook\<close>

text \<open>
  The notebook \<^verbatim>\<open>scripts/DeepAR-BloombergFDIWorkshop.ipynb\<close> works on pandas
  Series with a DatetimeIndex produced by \<^verbatim>\<open>resample('1H')\<close>, so every index entry
  lies on the grid of the frequency, and the Timestamps it slices with carry the same
  frequency (\<^verbatim>\<open>pd.Timestamp(..., freq=freq)\<close>), so that \<^verbatim>\<open>end_training - 1\<close> is one
  tick earlier. A timestamp is therefore modelled as the integer number of ticks of the
  frequency (hours) since 1970-01-01 00:00:00.

  A float (numpy float64) is modelled by its IEEE class: a finite value (abstracted to a
  real), not-a-number, or one of the two infinities. No float arithmetic is performed by
  the code under study; values are only compared with zero and tested for finiteness.
\<close>

type_synonym timestamp = int

datatype fval = Finite real | NaN | PosInf | NegInf

text \<open>A pandas Series: the index entries paired with the values, in index order.\<close>

type_synonym series = "(timestamp \<times> fval) list"

text \<open>
  The Python objects that are handed to \<^verbatim>\<open>json.dumps\<close> and returned by
  \<^verbatim>\<open>json.loads\<close>. A dict is an association list in insertion order. \<open>PTimeStr t\<close> is
  the string \<^verbatim>\<open>str(t)\<close> of a Timestamp, kept as the timestamp it renders.
\<close>

datatype pyobj =
    PInt int
  | PFloat fval
  | PStr string
  | PTimeStr timestamp
  | PList "pyobj list"
  | PDict "(string \<times> pyobj) list"

datatype error =
    IndexError | KeyError | StopIteration | ValueError | OverflowError
  | AssertionError | NoSuchBucket | FileNotFoundError

section \<open>Window builder: \<^verbatim>\<open>training_data\<close> and \<^verbatim>\<open>test_data\<close>\<close>

text \<open>
  \<^verbatim>\<open>ts[a:b]\<close> with Timestamp labels on a monotonic DatetimeIndex: pandas computes the
  two positions by \<^verbatim>\<open>searchsorted\<close> (side left for \<open>a\<close>, side right for \<open>b\<close>) and
  returns the positional slice between them; both labels are included, labels outside
  the index are allowed, and nothing is raised. On a sorted index the insertion point
  on the left of \<open>a\<close> is the number of leading entries below \<open>a\<close>, the one on the right
  of \<open>b\<close> the number of leading entries up to \<open>b\<close>. On an index that is not monotonic
  pandas raises KeyError for a label the index does not hold; the series of the notebook
  come from \<^verbatim>\<open>resample\<close> and are sorted, and the results below assume a sorted index.
\<close>

definition loc_slice :: "series \<Rightarrow> timestamp \<Rightarrow> timestamp \<Rightarrow> series" where
  "loc_slice ts a b =
     (let i = length (takeWhile (\<lambda>x. fst x < a) ts);
          j = length (takeWhile (\<lambda>x. fst x \<le> b) ts)
      in take (j - i) (drop i ts))"

text \<open>\<^verbatim>\<open>Series.tolist()\<close>: the values as Python floats.\<close>

definition tolist :: "series \<Rightarrow> pyobj list" where
  "tolist ts = map (\<lambda>x. PFloat (snd x)) ts"

text \<open>
  A Timestamp holds a signed 64-bit count of nanoseconds since 1970, and so does the
  Timedelta that an integer number of ticks stands for. An hour has \<open>3600 * 10^9\<close>
  nanoseconds, so on the hourly grid both range over the ticks from \<open>-2562047\<close> to
  \<open>2562047\<close>. \<^verbatim>\<open>Timestamp + n\<close> and \<^verbatim>\<open>Timestamp - n\<close> raise OverflowError when the
  \<open>n\<close> ticks or the resulting timestamp leave that range.
\<close>

definition timestamp_ok :: "int \<Rightarrow> bool" where
  "timestamp_ok t \<longleftrightarrow> - 2562047 \<le> t \<and> t \<le> 2562047"

definition timestamp_add :: "timestamp \<Rightarrow> int \<Rightarrow> error + timestamp" where
  "timestamp_add t n =
     (if timestamp_ok n \<and> timestamp_ok (t + n) then Inr (t + n) else Inl OverflowError)"

text \<open>
  A list comprehension whose element expression may raise: the elements are evaluated
  in order and the first exception ends the evaluation.
\<close>

fun collect :: "('a \<Rightarrow> error + 'b) \<Rightarrow> 'a list \<Rightarrow> error + 'b list" where
  "collect f [] = Inr []"
| "collect f (x # xs) =
     (case f x of
        Inl e \<Rightarrow> Inl e
      | Inr y \<Rightarrow> (case collect f xs of Inl e \<Rightarrow> Inl e | Inr ys \<Rightarrow> Inr (y # ys)))"

text \<open>
  \<^verbatim>\<open>
  training_data = [
      {
          "start": str(start_dataset),
          "target": ts[start_dataset:end_training - 1].tolist()  # We use -1, because pandas indexing includes the upper bound
      }
      for ts in timeseries1
  ]
  \<close>
\<close>

definition training_data ::
  "series list \<Rightarrow> timestamp \<Rightarrow> timestamp \<Rightarrow> error + pyobj list" where
  "training_data timeseries1 start_dataset end_training =
     collect (\<lambda>ts.
         case timestamp_add end_training (- 1) of
           Inl e \<Rightarrow> Inl e
         | Inr stop \<Rightarrow>
             Inr (PDict [(''start'', PTimeStr start_dataset),
                         (''target'', PList (tolist (loc_slice ts start_dataset stop)))]))
       timeseries1"

text \<open>
  \<^verbatim>\<open>
  test_data = [
      {
          "start": str(start_dataset),
          "target": ts[start_dataset:end_training + k * prediction_length].tolist()
      }
      for k in range(1, num_test_windows + 1)
      for ts in timeseries1
  ]
  \<close>
  The outer loop is over \<open>k\<close>, the inner one over the series.
\<close>

definition test_data ::
  "series list \<Rightarrow> timestamp \<Rightarrow> timestamp \<Rightarrow> int \<Rightarrow> nat \<Rightarrow> error + pyobj list" where
  "test_data timeseries1 start_dataset end_training prediction_length num_test_windows =
     collect (\<lambda>kts.
         case timestamp_add end_training (int (fst kts) * prediction_length) of
           Inl e \<Rightarrow> Inl e
         | Inr stop \<Rightarrow>
             Inr (PDict [(''start'', PTimeStr start_dataset),
                         (''target'', PList (tolist (loc_slice (snd kts) start_dataset stop)))]))
       (concat (map (\<lambda>k. map (\<lambda>ts. (k, ts)) timeseries1) [1 ..< num_test_windows + 1]))"


section \<open>Series preparer: \<^verbatim>\<open>np.trim_zeros\<close>\<close>

text \<open>\<^verbatim>\<open>str.upper()\<close> on ASCII text.\<close>

definition upper_char :: "char \<Rightarrow> char" where
  "upper_char c =
     (let n = (of_char c :: nat) in if 97 \<le> n \<and> n \<le> 122 then char_of (n - 32) else c)"

definition upper :: "string \<Rightarrow> string" where
  "upper s = map upper_char s"

text \<open>
  The comparison \<^verbatim>\<open>i != 0.\<close> on floats: true for every value other than zero, also
  for not-a-number and the infinities.
\<close>

definition ne_zero :: "fval \<Rightarrow> bool" where
  "ne_zero v \<longleftrightarrow> v \<noteq> Finite 0"

text \<open>
  The notebook calls \<^verbatim>\<open>np.trim_zeros(data_norm.iloc[:,i], trim='f')\<close>. The function
  belongs to numpy, not to the notebook; it is modelled as numpy defines it:
  \<^verbatim>\<open>
  def trim_zeros(filt, trim='fb'):
      first = 0
      trim = trim.upper()
      if 'F' in trim:
          for i in filt:
              if i != 0.: break
              else: first = first + 1
      last = len(filt)
      if 'B' in trim:
          for i in filt[::-1]:
              if i != 0.: break
              else: last = last - 1
      return filt[first:last]
  \<close>
  The final slice is positional; it is empty when \<open>last \<le> first\<close>.
\<close>

definition trim_zeros :: "series \<Rightarrow> string \<Rightarrow> series" where
  "trim_zeros filt trim =
     (let trim' = upper trim;
          first = (if CHR ''F'' \<in> set trim'
                   then length (takeWhile (\<lambda>x. \<not> ne_zero (snd x)) filt) else 0);
          last' = (if CHR ''B'' \<in> set trim'
                   then length filt - length (takeWhile (\<lambda>x. \<not> ne_zero (snd x)) (rev filt))
                   else length filt)
      in take (last' - first) (drop first filt))"

text \<open>
  The frame that \<^verbatim>\<open>resample('1H').agg({...})\<close> returns: the number of its columns and
  its rows, each a timestamp with one cell per column.
\<close>

record frame =
  fr_ncols :: nat
  fr_rows :: "(timestamp \<times> fval list) list"

text \<open>\<^verbatim>\<open>DataFrame.dropna()\<close>: the rows that hold a missing value are dropped.\<close>

definition dropna :: "frame \<Rightarrow> frame" where
  "dropna fr = fr\<lparr>fr_rows := filter (\<lambda>r. NaN \<notin> set (snd r)) (fr_rows fr)\<rparr>"

text \<open>\<^verbatim>\<open>fr.iloc[:, i]\<close>: the column at position \<open>i\<close> as a series.\<close>

definition iloc_col :: "frame \<Rightarrow> nat \<Rightarrow> series" where
  "iloc_col fr i = map (\<lambda>r. (fst r, snd r ! i)) (fr_rows fr)"

text \<open>
  \<^verbatim>\<open>
  data_norm = data1.resample('1H').agg({...}).dropna()
  ...
  num_timeseries1 = data_norm.shape[1]

  timeseries1 = []
  for i in range(num_timeseries1-1):
      timeseries1.append(np.trim_zeros(data_norm.iloc[:,i], trim='f'))
  \<close>
  \<open>resampled\<close> is the aggregated frame; the \<^verbatim>\<open>pd.to_numeric\<close> lines in between leave
  its numeric cells as they are.
\<close>

definition data_norm :: "frame \<Rightarrow> frame" where
  "data_norm resampled = dropna resampled"

definition timeseries1 :: "frame \<Rightarrow> series list" where
  "timeseries1 resampled =
     map (\<lambda>i. trim_zeros (iloc_col (data_norm resampled) i) ''f'')
       [0 ..< fr_ncols (data_norm resampled) - 1]"

section \<open>Forecast client: request encoding\<close>

text \<open>\<^verbatim>\<open>np.isfinite\<close>: false for not-a-number and for both infinities.\<close>

fun isfinite :: "fval \<Rightarrow> bool" where
  "isfinite (Finite r) = True"
| "isfinite NaN = False"
| "isfinite PosInf = False"
| "isfinite NegInf = False"

text \<open>
  \<^verbatim>\<open>
  def encode_target(ts):
      return [x if np.isfinite(x) else "NaN" for x in ts]
  \<close>
\<close>

definition encode_target :: "series \<Rightarrow> pyobj list" where
  "encode_target ts = map (\<lambda>x. if isfinite (snd x) then PFloat (snd x) else PStr ''NaN'') ts"

text \<open>Truth value of a Python object, as tested by \<^verbatim>\<open>if dynamic_feat\<close>.\<close>

fun truthy :: "pyobj \<Rightarrow> bool" where
  "truthy (PInt n) = (n \<noteq> 0)"
| "truthy (PFloat v) = (v \<noteq> Finite 0)"
| "truthy (PStr s) = (s \<noteq> [])"
| "truthy (PTimeStr t) = True"
| "truthy (PList xs) = (xs \<noteq> [])"
| "truthy (PDict kvs) = (kvs \<noteq> [])"

text \<open>
  \<^verbatim>\<open>
  def series_to_dict(ts, cat=None, dynamic_feat=None):
      obj = {"start": str(ts.index[0]), "target": encode_target(ts)}
      if cat is not None:
          obj["cat"] = cat
      if dynamic_feat is not None:
          obj["dynamic_feat"] = dynamic_feat
      return obj
  \<close>
  \<^verbatim>\<open>ts.index[0]\<close> raises IndexError on an empty series.
\<close>

definition series_to_dict ::
  "series \<Rightarrow> int option \<Rightarrow> pyobj option \<Rightarrow> error + (string \<times> pyobj) list" where
  "series_to_dict ts cat dynamic_feat =
     (case ts of
        [] \<Rightarrow> Inl IndexError
      | x # _ \<Rightarrow>
          let obj = [(''start'', PTimeStr (fst x)), (''target'', PList (encode_target ts))];
              obj = (case cat of None \<Rightarrow> obj | Some c \<Rightarrow> AList.update ''cat'' (PInt c) obj);
              obj = (case dynamic_feat of None \<Rightarrow> obj
                     | Some d \<Rightarrow> AList.update ''dynamic_feat'' d obj)
          in Inr obj)"

text \<open>
  \<^verbatim>\<open>
  def __encode_request(self, ts, cat, dynamic_feat, num_samples, return_samples, quantiles):
      instance = series_to_dict(ts, cat if cat is not None else None, dynamic_feat if dynamic_feat else None)
      configuration = {
          "num_samples": num_samples,
          "output_types": ["quantiles", "samples"] if return_samples else ["quantiles"],
          "quantiles": quantiles
      }
      http_request_data = {
          "instances": [instance],
          "configuration": configuration
      }
      return json.dumps(http_request_data).encode('utf-8')
  \<close>
  The result is kept as the object that \<^verbatim>\<open>json.dumps\<close> serialises.
\<close>

definition encode_request ::
  "series \<Rightarrow> int option \<Rightarrow> pyobj option \<Rightarrow> int \<Rightarrow> bool \<Rightarrow> string list \<Rightarrow> error + pyobj" where
  "encode_request ts cat dynamic_feat num_samples return_samples quantiles =
     (case series_to_dict ts
             (if cat \<noteq> None then cat else None)
             (case dynamic_feat of None \<Rightarrow> None
              | Some d \<Rightarrow> if truthy d then Some d else None) of
        Inl e \<Rightarrow> Inl e
      | Inr instance \<Rightarrow>
          let configuration =
                [(''num_samples'', PInt num_samples),
                 (''output_types'',
                    PList (if return_samples then [PStr ''quantiles'', PStr ''samples'']
                           else [PStr ''quantiles''])),
                 (''quantiles'', PList (map PStr quantiles))];
              http_request_data =
                [(''instances'', PList [PDict instance]),
                 (''configuration'', PDict configuration)]
          in Inr (PDict http_request_data))"

text \<open>The keys of every instance of an encoded request.\<close>

fun instance_keys :: "pyobj \<Rightarrow> string list list" where
  "instance_keys (PDict ((k, PList insts) # rest)) =
     (if k = ''instances''
      then map (\<lambda>i. case i of PDict kvs \<Rightarrow> map fst kvs | _ \<Rightarrow> []) insts
      else [])"
| "instance_keys _ = []"

section \<open>Forecast client: response decoding\<close>

text \<open>
  One element of the \<^verbatim>\<open>'predictions'\<close> array of the parsed response: the dict under
  \<^verbatim>\<open>'quantiles'\<close> in document order, and the list under \<^verbatim>\<open>'samples'\<close> when that key
  is present.
\<close>

record prediction =
  quantiles :: "(string \<times> pyobj list) list"
  samples :: "pyobj list list option"

text \<open>A pandas DataFrame: its index and its columns in order.\<close>

record dataframe =
  df_index :: "timestamp list"
  df_columns :: "(string \<times> pyobj list) list"

text \<open>\<^verbatim>\<open>str(i)\<close> of a non-negative integer.\<close>

definition digit_char :: "nat \<Rightarrow> char" where
  "digit_char d = char_of (48 + d)"

fun str_nat :: "nat \<Rightarrow> string" where
  "str_nat n = (if n < 10 then [digit_char n] else str_nat (n div 10) @ [digit_char (n mod 10)])"

declare str_nat.simps [simp del]

text \<open>
  \<^verbatim>\<open>pd.DatetimeIndex(start=prediction_time, freq=freq, periods=prediction_length)\<close>:
  \<open>freq\<close> is \<^verbatim>\<open>ts.index.freq\<close>, \<open>None\<close> when the index has no regular frequency
  (the constructor then raises ValueError), else the step in ticks.
\<close>

definition DatetimeIndex :: "timestamp \<Rightarrow> int option \<Rightarrow> nat \<Rightarrow> error + timestamp list" where
  "DatetimeIndex start freq periods =
     (case freq of
        None \<Rightarrow> Inl ValueError
      | Some step \<Rightarrow> Inr (map (\<lambda>i. start + int i * step) [0 ..< periods]))"

text \<open>
  \<^verbatim>\<open>{**a, **b}\<close>: the items of \<open>a\<close>, then those of \<open>b\<close>, inserted into a new dict; a
  key that is already there keeps its position and takes the new value.
\<close>

definition dict_merge :: "(string \<times> 'v) list \<Rightarrow> (string \<times> 'v) list \<Rightarrow> (string \<times> 'v) list" where
  "dict_merge a b = foldl (\<lambda>d kv. AList.update (fst kv) (snd kv) d) [] (a @ b)"

text \<open>
  \<^verbatim>\<open>pd.DataFrame(data=<dict of lists>, index=<index>)\<close> in the pandas releases this
  notebook runs on (before 1.0: it uses \<^verbatim>\<open>DatetimeIndex(start=...)\<close> and
  \<^verbatim>\<open>Timestamp + int\<close>). Every list goes through \<^verbatim>\<open>_sanitize_array\<close>. It first
  converts the list to an array of one type: when every cell is a number and one of
  them is a float, the integers are stored as floats (finite floats being modelled by
  their value, the rounding of a large integer is not visible); a list that holds a
  string, a list or a dict stays an array of the objects as they are. It then repeats a
  one-element array to the length of the index. The block manager raises ValueError
  unless every column has the length of the index. The columns are in the order of the
  dict (pandas 0.23 on Python 3.6).
\<close>

fun is_number :: "pyobj \<Rightarrow> bool" where
  "is_number (PInt n) = True"
| "is_number (PFloat v) = True"
| "is_number _ = False"

fun is_float :: "pyobj \<Rightarrow> bool" where
  "is_float (PFloat v) = True"
| "is_float _ = False"

fun to_float :: "pyobj \<Rightarrow> pyobj" where
  "to_float (PInt n) = PFloat (Finite (of_int n))"
| "to_float x = x"

definition convert_objects :: "pyobj list \<Rightarrow> pyobj list" where
  "convert_objects values =
     (if list_all is_number values \<and> list_ex is_float values then map to_float values
      else values)"

definition sanitize_array :: "nat \<Rightarrow> pyobj list \<Rightarrow> pyobj list" where
  "sanitize_array n data =
     (let subarr = convert_objects data
      in if length subarr \<noteq> n \<and> length subarr = 1 then replicate n (hd subarr) else subarr)"

definition DataFrame :: "(string \<times> pyobj list) list \<Rightarrow> timestamp list \<Rightarrow> error + dataframe" where
  "DataFrame data idx =
     (let arrays = map (\<lambda>kv. (fst kv, sanitize_array (length idx) (snd kv))) data
      in if list_all (\<lambda>kv. length (snd kv) = length idx) arrays
         then Inr \<lparr>df_index = idx, df_columns = arrays\<rparr>
         else Inl ValueError)"

text \<open>
  \<^verbatim>\<open>
  def __decode_response(self, response, freq, prediction_time, return_samples):
      predictions = json.loads(response.decode('utf-8'))['predictions'][0]
      prediction_length = len(next(iter(predictions['quantiles'].values())))
      prediction_index = pd.DatetimeIndex(start=prediction_time, freq=freq, periods=prediction_length)
      if return_samples:
          dict_of_samples = {'sample_' + str(i): s for i, s in enumerate(predictions['samples'])}
      else:
          dict_of_samples = {}
      return pd.DataFrame(data={**predictions['quantiles'], **dict_of_samples}, index=prediction_index)
  \<close>
  \<open>response\<close> is the list under \<^verbatim>\<open>'predictions'\<close>. An empty list raises IndexError, an
  empty quantile dict StopIteration, a missing \<^verbatim>\<open>'samples'\<close> key KeyError.
\<close>

definition decode_response ::
  "prediction list \<Rightarrow> int option \<Rightarrow> timestamp \<Rightarrow> bool \<Rightarrow> error + dataframe" where
  "decode_response response freq prediction_time return_samples =
     (case response of
        [] \<Rightarrow> Inl IndexError
      | predictions # _ \<Rightarrow>
          (case quantiles predictions of
             [] \<Rightarrow> Inl StopIteration
           | first # _ \<Rightarrow>
               let prediction_length = length (snd first) in
               (case DatetimeIndex prediction_time freq prediction_length of
                  Inl e \<Rightarrow> Inl e
                | Inr prediction_index \<Rightarrow>
                    (case (if return_samples
                           then (case samples predictions of
                                   None \<Rightarrow> Inl KeyError
                                 | Some ss \<Rightarrow>
                                     Inr (map (\<lambda>is. (''sample_'' @ str_nat (fst is), snd is))
                                            (enumerate 0 ss)))
                           else Inr []) of
                       Inl e \<Rightarrow> Inl e
                     | Inr dict_of_samples \<Rightarrow>
                         DataFrame (dict_merge (quantiles predictions) dict_of_samples)
                           prediction_index))))"

section \<open>Merge and report step\<close>

text \<open>
  \<open>left\<close> has the columns \<^verbatim>\<open>time, Price\<close>; \<open>right\<close> has the columns
  \<^verbatim>\<open>time, 10thPercentile, 50thPercentile, 90thPercentile\<close>. A frame is the list of its
  rows.
\<close>

type_synonym left_row = "timestamp \<times> fval"
type_synonym right_row = "timestamp \<times> fval \<times> fval \<times> fval"
type_synonym merged_row = "timestamp \<times> fval \<times> fval \<times> fval \<times> fval"

text \<open>\<^verbatim>\<open>right.append(right2)\<close>: the rows of \<open>right\<close> followed by those of \<open>right2\<close>.\<close>

definition append_frames :: "right_row list \<Rightarrow> right_row list \<Rightarrow> right_row list" where
  "append_frames right right2 = right @ right2"

text \<open>The distinct elements of a list in the order of their first occurrence.\<close>

definition first_seen :: "'a list \<Rightarrow> 'a list" where
  "first_seen xs = rev (remdups (rev xs))"

text \<open>
  \<^verbatim>\<open>pd.merge(left, right, how='outer', on=['time', 'time'])\<close>. pandas numbers the keys
  in the order of their first occurrence in the left key column followed by the right
  one (\<^verbatim>\<open>sort=False\<close>), and the full outer join emits the groups in that order: for a
  key on both sides every left row paired with every right row, left row by left row;
  for a key on one side only that side's rows, with NaN in the columns of the other.
\<close>

definition join_group :: "left_row list \<Rightarrow> right_row list \<Rightarrow> timestamp \<Rightarrow> merged_row list" where
  "join_group left right k =
     (let ls = filter (\<lambda>l. fst l = k) left;
          rs = filter (\<lambda>r. fst r = k) right
      in if rs = [] then map (\<lambda>l. (k, snd l, NaN, NaN, NaN)) ls
         else if ls = [] then map (\<lambda>r. (k, NaN, snd r)) rs
         else concat (map (\<lambda>l. map (\<lambda>r. (k, snd l, snd r)) rs) ls))"

definition merge_outer :: "left_row list \<Rightarrow> right_row list \<Rightarrow> merged_row list" where
  "merge_outer left right =
     concat (map (join_group left right) (first_seen (map fst left @ map fst right)))"

text \<open>The number of rows of a merged table that carry a given timestamp.\<close>

definition rows_at :: "timestamp \<Rightarrow> merged_row list \<Rightarrow> nat" where
  "rows_at t rows = length (filter (\<lambda>r. fst r = t) rows)"

section \<open>Upload to object storage: \<^verbatim>\<open>copy_to_s3\<close>\<close>

text \<open>\<^verbatim>\<open>s.split(sep)\<close> for a one-character separator, and \<^verbatim>\<open>sep.join(parts)\<close>.\<close>

fun split_str :: "char \<Rightarrow> string \<Rightarrow> string list" where
  "split_str sep [] = [[]]"
| "split_str sep (c # cs) =
     (if c = sep then [] # split_str sep cs
      else (case split_str sep cs of
              [] \<Rightarrow> [[c]]
            | w # ws \<Rightarrow> (c # w) # ws))"

fun join :: "string \<Rightarrow> string list \<Rightarrow> string" where
  "join sep [] = []"
| "join sep [x] = x"
| "join sep (x # y # ys) = x @ sep @ join sep (y # ys)"

text \<open>
  The state the function acts on: the buckets of the object store, each an association
  list from key to body in listing order, and the lines printed so far.
\<close>

datatype message =
    AlreadyExists string string
  | Overwriting
  | Uploading string

record world =
  s3 :: "(string \<times> (string \<times> string) list) list"
  stdout :: "message list"

text \<open>
  \<^verbatim>\<open>
  def copy_to_s3(local_file, s3_path, override=False):
      assert s3_path.startswith('s3://')
      split = s3_path.split('/')
      bucket = split[2]
      path = '/'.join(split[3:])
      buk = s3.Bucket(bucket)

      if len(list(buk.objects.filter(Prefix=path))) > 0:
          if not override:
              print('File s3://{}/{} already exists.\nSet override to upload anyway.\n'.format(s3_bucket, s3_path))
              return
          else:
              print('Overwriting existing file')
      with open(local_file, 'rb') as data:
          print('Uploading file to {}'.format(s3_path))
          buk.put_object(Key=path, Body=data)
  \<close>
  \<open>s3_bucket\<close> is the notebook's global of that name, \<open>files\<close> the local file system.
  The result is the exception raised, if any, and the state reached. Listing a bucket
  that does not exist raises; \<^verbatim>\<open>split[2]\<close> exists whenever the assertion holds.
\<close>

definition copy_to_s3 ::
  "string \<Rightarrow> (string \<times> string) list \<Rightarrow> string \<Rightarrow> string \<Rightarrow> bool \<Rightarrow> world \<Rightarrow> error option \<times> world" where
  "copy_to_s3 s3_bucket files local_file s3_path override w =
     (if \<not> prefix ''s3://'' s3_path then (Some AssertionError, w)
      else
        let split = split_str CHR ''/'' s3_path;
            bucket = split ! 2;
            path = join ''/'' (drop 3 split)
        in (case map_of (s3 w) bucket of
              None \<Rightarrow> (Some NoSuchBucket, w)
            | Some buk \<Rightarrow>
                (let listed = filter (\<lambda>obj. prefix path (fst obj)) buk in
                 if length listed > 0 \<and> \<not> override
                 then (None, w\<lparr>stdout := stdout w @ [AlreadyExists s3_bucket s3_path]\<rparr>)
                 else
                   (let w1 = (if length listed > 0
                              then w\<lparr>stdout := stdout w @ [Overwriting]\<rparr> else w)
                    in (case map_of files local_file of
                          None \<Rightarrow> (Some FileNotFoundError, w1)
                        | Some data \<Rightarrow>
                            (None, w1\<lparr>stdout := stdout w1 @ [Uploading s3_path],
                                      s3 := AList.update bucket (AList.update path data buk)
                                              (s3 w1)\<rparr>))))))"

section \<open>Properties of the window builder\<close>

lemma takeWhile_sorted_filter:
  assumes "sorted (map fst ts)"
  shows "takeWhile (\<lambda>x. fst x < (a::int)) ts = filter (\<lambda>x. fst x < a) ts"
    and "takeWhile (\<lambda>x. fst x \<le> (b::int)) ts = filter (\<lambda>x. fst x \<le> b) ts"
  using assms by (induction ts) (auto intro!: filter_False[symmetric])

lemma loc_slice_sorted:
  assumes "sorted (map fst ts)"
  shows "loc_slice ts a b = filter (\<lambda>x. a \<le> fst x \<and> fst x \<le> b) ts"
  using assms
proof (induction ts)
  case Nil
  then show ?case by (simp add: loc_slice_def)
next
  case (Cons x xs)
  then have sorted_xs: "sorted (map fst xs)" and above: "\<forall>y\<in>set xs. fst x \<le> fst y"
    by auto
  have IH: "loc_slice xs a b = filter (\<lambda>x. a \<le> fst x \<and> fst x \<le> b) xs"
    using Cons.IH sorted_xs by simp
  show ?case
  proof (cases "fst x < a")
    case True
    then show ?thesis
      using IH by (cases "fst x \<le> b") (auto simp: loc_slice_def Let_def)
  next
    case lo: False
    show ?thesis
    proof (cases "fst x \<le> b")
      case True
      have "take (length (takeWhile (\<lambda>x. fst x \<le> b) xs)) xs = takeWhile (\<lambda>x. fst x \<le> b) xs"
        using takeWhile_eq_take[of "\<lambda>x. fst x \<le> b" xs] by simp
      also have "\<dots> = filter (\<lambda>x. fst x \<le> b) xs"
        using takeWhile_sorted_filter(2)[OF sorted_xs] .
      also have "\<dots> = filter (\<lambda>x. a \<le> fst x \<and> fst x \<le> b) xs"
        using lo above by (intro filter_cong) auto
      finally show ?thesis
        using lo True by (simp add: loc_slice_def Let_def)
    next
      case False
      have "filter (\<lambda>x. a \<le> fst x \<and> fst x \<le> b) xs = []"
        using False above by (auto simp: filter_empty_conv)
      then show ?thesis
        using lo False by (simp add: loc_slice_def Let_def)
    qed
  qed
qed


lemma loc_slice_empty:
  assumes "b < a"
  shows "loc_slice ts a b = []"
proof -
  have "length (takeWhile (\<lambda>x. fst x \<le> b) ts) \<le> length (takeWhile (\<lambda>x. fst x < a) ts)"
    using assms by (induction ts) auto
  then show ?thesis
    by (simp add: loc_slice_def Let_def)
qed

lemma training_slice_sorted:
  assumes "sorted (map fst ts)"
  shows "loc_slice ts s (e - 1) = filter (\<lambda>x. s \<le> fst x \<and> fst x < e) ts"
proof -
  have "(\<lambda>x::timestamp \<times> fval. s \<le> fst x \<and> fst x \<le> e - 1) = (\<lambda>x. s \<le> fst x \<and> fst x < e)"
    by auto
  then show ?thesis
    using loc_slice_sorted[OF assms, of s "e - 1"] by simp
qed



lemma timestamp_add_minus_one:
  "timestamp_add e (- 1) = (if timestamp_ok (e - 1) then Inr (e - 1) else Inl OverflowError)"
  by (simp add: timestamp_add_def timestamp_ok_def)



lemma length_collect:
  "collect f xs = Inr ys \<Longrightarrow> length ys = length xs"
  by (induction xs arbitrary: ys) (auto split: sum.splits)


lemma length_test_pairs:
  "length (concat (map (\<lambda>k. map (\<lambda>ts. (k, ts)) tss) [1 ..< n + 1])) = n * length tss"
  by (simp add: length_concat comp_def sum_list_triv)

text \<open>
  When nothing is raised there are \<open>num_test_windows\<close> test windows per series.
\<close>

lemma length_test_data:
  "test_data tss s e h n = Inr ws \<Longrightarrow> length ws = n * length tss"
  unfolding test_data_def using length_collect[of _ _ ws] length_test_pairs[of tss n] by fastforce


text \<open>
  Each test window of a series is a prefix of the next one when the horizon is not
  negative.
\<close>

lemma length_takeWhile_mono_bound:
  "(b::int) \<le> b' \<Longrightarrow>
   length (takeWhile (\<lambda>x. fst x \<le> b) ts) \<le> length (takeWhile (\<lambda>x. fst x \<le> b') ts)"
  by (induction ts) auto

lemma loc_slice_nested:
  assumes "b \<le> b'"
  shows "prefix (loc_slice ts a b) (loc_slice ts a b')"
proof -
  let ?i = "length (takeWhile (\<lambda>x. fst x < a) ts)"
  let ?j = "length (takeWhile (\<lambda>x. fst x \<le> b) ts)"
  let ?j' = "length (takeWhile (\<lambda>x. fst x \<le> b') ts)"
  have "?j - ?i \<le> ?j' - ?i"
    using length_takeWhile_mono_bound[OF assms, of ts] by simp
  then have "take (?j - ?i) (drop ?i ts) = take (?j - ?i) (take (?j' - ?i) (drop ?i ts))"
    by (simp add: min_def)
  then have "prefix (take (?j - ?i) (drop ?i ts)) (take (?j' - ?i) (drop ?i ts))"
    using take_is_prefix[of "?j - ?i" "take (?j' - ?i) (drop ?i ts)"] by simp
  then show ?thesis
    by (simp add: loc_slice_def Let_def)
qed

lemma test_windows_nested:
  assumes "0 \<le> h"
  shows "prefix (loc_slice ts s (e + int k * h)) (loc_slice ts s (e + int (Suc k) * h))"
  using assms by (intro loc_slice_nested) (simp add: algebra_simps)



text \<open>
  Claim C1. The specification lets the \<open>k\<close>-th test window cover the half-open interval
  from \<open>start\<close> to \<open>end_training + k * horizon\<close>, the end excluded. The code slices
  with \<^verbatim>\<open>ts[start_dataset:end_training + k * prediction_length]\<close>, which includes the
  upper label, and does not subtract the tick that \<^verbatim>\<open>training_data\<close> subtracts for
  that reason. On the series with the values 1, 2, 3, 4 at the timestamps 0, 1, 2, 3,
  with \<open>start = 0\<close>, \<open>end_training = 1\<close>, horizon 1 and two windows, the first window
  holds the three values at the timestamps 0, 1, 2 (the half-open interval up to 2 holds
  two) and the second all four.
\<close>

theorem test_window_includes_upper_bound:
  "test_data [[(0, Finite 1), (1, Finite 2), (2, Finite 3), (3, Finite 4)]] 0 1 1 2 =
     Inr [PDict [(''start'', PTimeStr 0),
             (''target'', PList [PFloat (Finite 1), PFloat (Finite 2), PFloat (Finite 3)])],
          PDict [(''start'', PTimeStr 0),
             (''target'', PList [PFloat (Finite 1), PFloat (Finite 2), PFloat (Finite 3),
                                 PFloat (Finite 4)])]]"
  by (simp add: test_data_def timestamp_add_def timestamp_ok_def loc_slice_def tolist_def upt_rec)

text \<open>
  Claim C7. For a series with increasing timestamps and any \<open>start\<close> and
  \<open>end_training\<close>, the training window of the series holds, in order, exactly the
  values of the elements whose timestamp \<open>t\<close> satisfies \<open>start \<le> t < end_training\<close>:
  every such element is in the slice and no element at or after \<open>end_training\<close> is.
  The window is returned whenever \<open>end_training - 1\<close> is a timestamp; otherwise the
  subtraction raises OverflowError.
\<close>

theorem training_window_half_open:
  assumes "sorted (map fst ts)"
  shows "training_data [ts] s e =
           (if timestamp_ok (e - 1)
            then Inr [PDict [(''start'', PTimeStr s),
                   (''target'', PList (tolist (filter (\<lambda>x. s \<le> fst x \<and> fst x < e) ts)))]]
            else Inl OverflowError)
         \<and> set (loc_slice ts s (e - 1)) = {x \<in> set ts. s \<le> fst x \<and> fst x < e}"
  using training_slice_sorted[OF assms, of s e]
  by (simp add: training_data_def timestamp_add_minus_one)

theorem training_window_half_open_witness:
  "sorted (map fst [(0, Finite 1), (1, Finite 2), (2, Finite 3), (3::int, Finite 4)])
   \<and> training_data [[(0, Finite 1), (1, Finite 2), (2, Finite 3), (3, Finite 4)]] 1 3 =
       Inr [PDict [(''start'', PTimeStr 1),
                   (''target'', PList [PFloat (Finite 2), PFloat (Finite 3)])]]"
  using training_window_half_open[of "[(0, Finite 1), (1, Finite 2), (2, Finite 3), (3, Finite 4)]" 1 3]
  by (simp add: tolist_def timestamp_ok_def)




section \<open>Properties of the series preparer\<close>

lemma upper_f: "upper ''f'' = ''F''"
  by code_simp

lemma trim_zeros_f_dropWhile:
  "trim_zeros S ''f'' = dropWhile (\<lambda>x. snd x = Finite 0) S"
proof -
  have mem: "CHR ''F'' \<in> set ''F''" "CHR ''B'' \<notin> set ''F''"
    by simp_all
  have "trim_zeros S ''f'' = take (length S - length (takeWhile (\<lambda>x. snd x = Finite 0) S))
          (drop (length (takeWhile (\<lambda>x. snd x = Finite 0) S)) S)"
    unfolding trim_zeros_def upper_f Let_def ne_zero_def using mem by simp
  also have "\<dots> = drop (length (takeWhile (\<lambda>x. snd x = Finite 0) S)) S"
    by simp
  also have "\<dots> = dropWhile (\<lambda>x. snd x = Finite 0) S"
    by (simp add: dropWhile_eq_drop)
  finally show ?thesis .
qed

lemma data_norm_complete:
  assumes "\<forall>r\<in>set (fr_rows resampled). length (snd r) = fr_ncols resampled"
    and "i < fr_ncols resampled"
  shows "\<forall>x\<in>set (iloc_col (data_norm resampled) i). snd x \<noteq> NaN"
proof
  fix x
  assume "x \<in> set (iloc_col (data_norm resampled) i)"
  then obtain r where r: "r \<in> set (fr_rows resampled)" "NaN \<notin> set (snd r)" "x = (fst r, snd r ! i)"
    by (auto simp: iloc_col_def data_norm_def dropna_def)
  have "snd r ! i \<in> set (snd r)"
    using assms r(1) by simp
  then show "snd x \<noteq> NaN"
    using r(2,3) by auto
qed

lemma timeseries1_nth:
  assumes "i < fr_ncols resampled - 1"
  shows "timeseries1 resampled ! i = trim_zeros (iloc_col (data_norm resampled) i) ''f''"
  using assms by (simp add: timeseries1_def data_norm_def dropna_def)

text \<open>
  Claim C3. The series that the notebook trims with \<^verbatim>\<open>trim='f'\<close> are the columns of
  \<^verbatim>\<open>data_norm\<close>, whose rows with a missing value were dropped. For each of them the
  trimmed series is empty when every value is zero, otherwise its first element is
  neither zero nor missing; the series is a run of zeros followed by the result, so
  every element from the first non-zero one onward is kept unchanged, interior zeros
  included. The series 1, 2, 0, 0, 3, 4 is returned unchanged and 0, 0, 1, 2, 0, 3
  becomes 1, 2, 0, 3.
\<close>

theorem leading_trim_of_data_norm:
  assumes "\<forall>r\<in>set (fr_rows resampled). length (snd r) = fr_ncols resampled"
    and "i < fr_ncols resampled - 1"
  shows
    "(let S = iloc_col (data_norm resampled) i; T = timeseries1 resampled ! i in
        T = trim_zeros S ''f''
        \<and> ((\<forall>x\<in>set S. snd x = Finite 0) \<longrightarrow> T = [])
        \<and> (T \<noteq> [] \<longrightarrow> snd (hd T) \<noteq> Finite 0 \<and> snd (hd T) \<noteq> NaN)
        \<and> (\<exists>zs. S = zs @ T \<and> (\<forall>z\<in>set zs. snd z = Finite 0)))
     \<and> trim_zeros [(0, Finite 1), (1, Finite 2), (2, Finite 0), (3, Finite 0), (4, Finite 3), (5, Finite 4)] ''f''
         = [(0, Finite 1), (1, Finite 2), (2, Finite 0), (3, Finite 0), (4, Finite 3), (5, Finite 4)]
     \<and> trim_zeros [(0, Finite 0), (1, Finite 0), (2, Finite 1), (3, Finite 2), (4, Finite 0), (5, Finite 3)] ''f''
         = [(2, Finite 1), (3, Finite 2), (4, Finite 0), (5, Finite 3)]"
proof -
  let ?P = "\<lambda>x::timestamp \<times> fval. snd x = Finite 0"
  let ?S = "iloc_col (data_norm resampled) i"
  let ?T = "timeseries1 resampled ! i"
  have T: "?T = trim_zeros ?S ''f''"
    by (rule timeseries1_nth[OF assms(2)])
  have eq: "?T = dropWhile ?P ?S"
    unfolding T by (rule trim_zeros_f_dropWhile)
  have complete: "\<forall>x\<in>set ?S. snd x \<noteq> NaN"
    using data_norm_complete[OF assms(1), of i] assms(2) by simp
  have all0: "(\<forall>x\<in>set ?S. ?P x) \<longrightarrow> ?T = []"
    unfolding eq by simp
  have hd0: "?T \<noteq> [] \<longrightarrow> snd (hd ?T) \<noteq> Finite 0"
    unfolding eq using hd_dropWhile[of ?P ?S] by blast
  have "?T \<noteq> [] \<longrightarrow> hd ?T \<in> set ?S"
    unfolding eq using set_dropWhileD[of "hd (dropWhile ?P ?S)" ?P ?S] by auto
  then have hdn: "?T \<noteq> [] \<longrightarrow> snd (hd ?T) \<noteq> NaN"
    using complete by blast
  have "?S = takeWhile ?P ?S @ ?T"
    unfolding eq by simp
  moreover have "\<forall>z\<in>set (takeWhile ?P ?S). snd z = Finite 0"
    using set_takeWhileD by fastforce
  ultimately have split: "\<exists>zs. ?S = zs @ ?T \<and> (\<forall>z\<in>set zs. snd z = Finite 0)"
    by blast
  have ex1: "trim_zeros [(0, Finite 1), (1, Finite 2), (2, Finite 0), (3, Finite 0), (4, Finite 3), (5, Finite 4)] ''f''
       = [(0, Finite 1), (1, Finite 2), (2, Finite 0), (3, Finite 0), (4, Finite 3), (5, Finite 4)]"
    by (simp add: trim_zeros_f_dropWhile)
  have ex2: "trim_zeros [(0, Finite 0), (1, Finite 0), (2, Finite 1), (3, Finite 2), (4, Finite 0), (5, Finite 3)] ''f''
       = [(2, Finite 1), (3, Finite 2), (4, Finite 0), (5, Finite 3)]"
    by (simp add: trim_zeros_f_dropWhile)
  have hdboth: "?T \<noteq> [] \<longrightarrow> snd (hd ?T) \<noteq> Finite 0 \<and> snd (hd ?T) \<noteq> NaN"
    using hd0 hdn by blast
  from T all0 hdboth split ex1 ex2 show ?thesis
    unfolding Let_def by (intro conjI)
qed

theorem leading_trim_of_data_norm_witness:
  "list_all (\<lambda>r. length (snd r) = 2)
     [(0, [Finite 0, Finite 5]), (1::int, [NaN, Finite 5]), (2, [Finite 0, Finite 5]),
      (3, [Finite 1, Finite 5]), (4, [Finite 2, NaN]), (5, [Finite 2, Finite 5]),
      (6, [Finite 0, Finite 5]), (7, [Finite 3, Finite 5])]
   \<and> iloc_col (data_norm \<lparr>fr_ncols = 2, fr_rows =
        [(0, [Finite 0, Finite 5]), (1, [NaN, Finite 5]), (2, [Finite 0, Finite 5]),
         (3, [Finite 1, Finite 5]), (4, [Finite 2, NaN]), (5, [Finite 2, Finite 5]),
         (6, [Finite 0, Finite 5]), (7, [Finite 3, Finite 5])]\<rparr>) 0 =
       [(0, Finite 0), (2, Finite 0), (3, Finite 1), (5, Finite 2), (6, Finite 0), (7, Finite 3)]
   \<and> timeseries1 \<lparr>fr_ncols = 2, fr_rows =
        [(0, [Finite 0, Finite 5]), (1, [NaN, Finite 5]), (2, [Finite 0, Finite 5]),
         (3, [Finite 1, Finite 5]), (4, [Finite 2, NaN]), (5, [Finite 2, Finite 5]),
         (6, [Finite 0, Finite 5]), (7, [Finite 3, Finite 5])]\<rparr> ! 0 =
       [(3, Finite 1), (5, Finite 2), (6, Finite 0), (7, Finite 3)]
   \<and> snd (hd [(3::int, Finite 1), (5, Finite 2), (6, Finite 0), (7, Finite 3)]) \<noteq> Finite 0
   \<and> snd (hd [(3::int, Finite 1), (5, Finite 2), (6, Finite 0), (7, Finite 3)]) \<noteq> NaN"
proof -
  let ?rows = "[(0, [Finite 0, Finite 5]), (1::int, [NaN, Finite 5]), (2, [Finite 0, Finite 5]),
      (3, [Finite 1, Finite 5]), (4, [Finite 2, NaN]), (5, [Finite 2, Finite 5]),
      (6, [Finite 0, Finite 5]), (7, [Finite 3, Finite 5])]"
  let ?fr = "\<lparr>fr_ncols = 2, fr_rows = ?rows\<rparr>"
  let ?T = "[(3::int, Finite 1), (5, Finite 2), (6, Finite 0), (7, Finite 3)]"
  have wf: "\<forall>r\<in>set (fr_rows ?fr). length (snd r) = fr_ncols ?fr"
    by simp
  have i: "0 < fr_ncols ?fr - 1"
    by simp
  have S: "iloc_col (data_norm ?fr) 0 =
       [(0, Finite 0), (2, Finite 0), (3, Finite 1), (5, Finite 2), (6, Finite 0), (7, Finite 3)]"
    by (simp add: iloc_col_def data_norm_def dropna_def)
  note th = leading_trim_of_data_norm[OF wf i, unfolded Let_def, THEN conjunct1]
  have T: "timeseries1 ?fr ! 0 = ?T"
    using th[THEN conjunct1] unfolding S by (simp add: trim_zeros_f_dropWhile)
  have "timeseries1 ?fr ! 0 \<noteq> [] \<longrightarrow>
          snd (hd (timeseries1 ?fr ! 0)) \<noteq> Finite 0 \<and> snd (hd (timeseries1 ?fr ! 0)) \<noteq> NaN"
    by (rule th[THEN conjunct2, THEN conjunct2, THEN conjunct1])
  then have h: "snd (hd ?T) \<noteq> Finite 0 \<and> snd (hd ?T) \<noteq> NaN"
    unfolding T by simp
  have wf': "list_all (\<lambda>r. length (snd r) = 2) ?rows"
    by simp
  from wf' S T h show ?thesis
    by (intro conjI) simp_all
qed

section \<open>Properties of the request encoder\<close>

lemma encode_request_instance:
  "encode_request ts cat dynamic_feat num_samples return_samples qs = Inr req \<Longrightarrow>
   \<exists>inst. series_to_dict ts cat
        (case dynamic_feat of None \<Rightarrow> None | Some d \<Rightarrow> if truthy d then Some d else None) = Inr inst
      \<and> instance_keys req = [map fst inst]"
proof -
  have c: "(if cat \<noteq> None then cat else None) = cat"
    by (cases cat) auto
  assume "encode_request ts cat dynamic_feat num_samples return_samples qs = Inr req"
  then show ?thesis
    unfolding encode_request_def c by (auto simp: Let_def split: sum.splits)
qed

lemma series_to_dict_no_dynamic_feat:
  "series_to_dict ts cat None = Inr inst \<Longrightarrow> ''dynamic_feat'' \<notin> set (map fst inst)"
  by (cases ts; cases cat) (auto simp: series_to_dict_def Let_def)

text \<open>
  Claim C10. \<^verbatim>\<open>__encode_request\<close> passes \<^verbatim>\<open>dynamic_feat if dynamic_feat else None\<close>, so
  an empty list of dynamic features is replaced by \<^verbatim>\<open>None\<close>: for every series, category,
  sample count, flag and quantile list, encoding with an empty dynamic-feature list
  gives the same result as encoding without dynamic features, and the instance of an
  encoded request has no \<^verbatim>\<open>dynamic_feat\<close> field.
\<close>

theorem empty_dynamic_feat_omitted:
  "encode_request ts cat (Some (PList [])) num_samples return_samples qs =
     encode_request ts cat None num_samples return_samples qs
   \<and> (\<forall>req. encode_request ts cat (Some (PList [])) num_samples return_samples qs = Inr req
        \<longrightarrow> instance_keys req \<noteq> [] \<and> (\<forall>ks\<in>set (instance_keys req). ''dynamic_feat'' \<notin> set ks))"
proof -
  have eq: "encode_request ts cat (Some (PList [])) num_samples return_samples qs =
     encode_request ts cat None num_samples return_samples qs"
    by (simp add: encode_request_def)
  have "instance_keys req \<noteq> [] \<and> (\<forall>ks\<in>set (instance_keys req). ''dynamic_feat'' \<notin> set ks)"
    if "encode_request ts cat (Some (PList [])) num_samples return_samples qs = Inr req" for req
    using encode_request_instance[OF that] series_to_dict_no_dynamic_feat[of ts cat]
    by auto
  with eq show ?thesis by blast
qed

theorem empty_dynamic_feat_omitted_witness:
  "encode_request [(5, Finite 1), (6, NaN)] (Some 3) (Some (PList [])) 50 False [''0.1'', ''0.5''] =
     Inr (PDict
       [(''instances'',
         PList [PDict [(''start'', PTimeStr 5),
                       (''target'', PList [PFloat (Finite 1), PStr ''NaN'']),
                       (''cat'', PInt 3)]]),
        (''configuration'',
         PDict [(''num_samples'', PInt 50),
                (''output_types'', PList [PStr ''quantiles'']),
                (''quantiles'', PList [PStr ''0.1'', PStr ''0.5''])])])
   \<and> encode_request [(5, Finite 1), (6, NaN)] (Some 3) None 50 False [''0.1'', ''0.5''] =
       encode_request [(5, Finite 1), (6, NaN)] (Some 3) (Some (PList [])) 50 False [''0.1'', ''0.5'']"
proof -
  have a: "encode_request [(5, Finite 1), (6, NaN)] (Some 3) (Some (PList [])) 50 False [''0.1'', ''0.5''] =
     Inr (PDict
       [(''instances'',
         PList [PDict [(''start'', PTimeStr 5),
                       (''target'', PList [PFloat (Finite 1), PStr ''NaN'']),
                       (''cat'', PInt 3)]]),
        (''configuration'',
         PDict [(''num_samples'', PInt 50),
                (''output_types'', PList [PStr ''quantiles'']),
                (''quantiles'', PList [PStr ''0.1'', PStr ''0.5''])])])"
    by (simp add: encode_request_def series_to_dict_def encode_target_def)
  from a empty_dynamic_feat_omitted[of "[(5, Finite 1), (6, NaN)]" "Some 3" 50 False "[''0.1'', ''0.5'']"]
  show ?thesis by simp
qed

section \<open>Properties of the response decoder\<close>



lemma update_fresh: "k \<notin> fst ` set d \<Longrightarrow> AList.update k v d = d @ [(k, v)]"
  by (induction d) auto

lemma foldl_update_distinct:
  "distinct (map fst (d @ a)) \<Longrightarrow> foldl (\<lambda>d kv. AList.update (fst kv) (snd kv) d) d a = d @ a"
proof (induction a arbitrary: d)
  case Nil
  then show ?case by simp
next
  case (Cons kv a)
  have fresh: "fst kv \<notin> fst ` set d"
    using Cons.prems by auto
  have "distinct (map fst ((d @ [kv]) @ a))"
    using Cons.prems by simp
  then have "foldl (\<lambda>d kv. AList.update (fst kv) (snd kv) d) (d @ [kv]) a = (d @ [kv]) @ a"
    by (rule Cons.IH)
  then show ?case
    using update_fresh[OF fresh, of "snd kv"] by simp
qed

lemma map_of_foldl_update_other:
  "k \<notin> fst ` set kvs \<Longrightarrow>
   map_of (foldl (\<lambda>d kv. AList.update (fst kv) (snd kv) d) d kvs) k = map_of d k"
  by (induction kvs arbitrary: d) (auto simp: update_conv')

lemma dict_merge_distinct:
  assumes "distinct (map fst a)"
  shows "dict_merge a b = foldl (\<lambda>d kv. AList.update (fst kv) (snd kv) d) a b"
  using foldl_update_distinct[of "[]" a] assms by (simp add: dict_merge_def)

lemma dict_merge_empty: "distinct (map fst a) \<Longrightarrow> dict_merge a [] = a"
  by (simp add: dict_merge_distinct)

lemma dict_merge_keeps:
  assumes "distinct (map fst a)" "(k, c) \<in> set a" "k \<notin> fst ` set b"
  shows "(k, c) \<in> set (dict_merge a b)"
proof -
  have "map_of (dict_merge a b) k = map_of a k"
    using assms(1,3) by (simp add: dict_merge_distinct map_of_foldl_update_other)
  also have "\<dots> = Some c"
    using assms(1,2) by simp
  finally show ?thesis
    by (rule map_of_SomeD)
qed


lemma DataFrame_Inr:
  assumes "DataFrame data idx = Inr df"
  shows "df_index df = idx"
    and "df_columns df = map (\<lambda>kv. (fst kv, sanitize_array (length idx) (snd kv))) data"
    and "list_all (\<lambda>c. length (snd c) = length idx) (df_columns df)"
  using assms by (auto simp: DataFrame_def Let_def split: if_splits)

lemma length_convert_objects: "length (convert_objects c) = length c"
  by (simp add: convert_objects_def)

lemma sanitize_array_fits:
  "length c = n \<Longrightarrow> sanitize_array n c = convert_objects c"
  by (simp add: sanitize_array_def Let_def length_convert_objects)

lemma sanitize_array_misfit:
  "length c \<noteq> n \<Longrightarrow> length c \<noteq> 1 \<Longrightarrow> length (sanitize_array n c) \<noteq> n"
  by (simp add: sanitize_array_def Let_def length_convert_objects)






lemma DataFrame_bad_column:
  assumes "(k, c) \<in> set data" "length c \<noteq> length idx" "length c \<noteq> 1"
  shows "DataFrame data idx = Inl ValueError"
proof -
  have "(k, sanitize_array (length idx) c) \<in> set (map (\<lambda>kv. (fst kv, sanitize_array (length idx) (snd kv))) data)"
    using assms(1) by force
  moreover have "length (sanitize_array (length idx) c) \<noteq> length idx"
    using assms(2,3) by (rule sanitize_array_misfit)
  ultimately have "\<not> list_all (\<lambda>kv. length (snd kv) = length idx)
      (map (\<lambda>kv. (fst kv, sanitize_array (length idx) (snd kv))) data)"
    unfolding list_all_iff by force
  then show ?thesis
    by (simp add: DataFrame_def Let_def)
qed

lemma DataFrame_all_fit:
  assumes "list_all (\<lambda>c. length (snd c) = length idx) data"
  shows "DataFrame data idx =
           Inr \<lparr>df_index = idx, df_columns = map (\<lambda>kv. (fst kv, convert_objects (snd kv))) data\<rparr>"
proof -
  have eq: "map (\<lambda>kv. (fst kv, sanitize_array (length idx) (snd kv))) data =
          map (\<lambda>kv. (fst kv, convert_objects (snd kv))) data"
    using assms by (induction data) (auto simp: sanitize_array_fits)
  have la: "list_all (\<lambda>kv. length (snd kv) = length idx)
                   (map (\<lambda>kv. (fst kv, convert_objects (snd kv))) data)"
    using assms by (induction data) (auto simp: length_convert_objects)
  show ?thesis
    unfolding DataFrame_def Let_def eq using la by simp
qed

lemma decode_response_no_freq:
  assumes "quantiles p = (k0, q0) # qs"
  shows "decode_response (p # rest) None t rs = Inl ValueError"
  using assms by (simp add: decode_response_def DatetimeIndex_def)

lemma decode_response_quantiles_only:
  assumes "quantiles p = (k0, q0) # qs"
  shows "decode_response (p # rest) (Some step) t False =
           DataFrame (dict_merge (quantiles p) []) (map (\<lambda>i. t + int i * step) [0 ..< length q0])"
  using assms by (simp add: decode_response_def DatetimeIndex_def)

lemma decode_response_with_samples:
  assumes "quantiles p = (k0, q0) # qs"
  shows "decode_response (p # rest) (Some step) t True =
           (case samples p of
              None \<Rightarrow> Inl KeyError
            | Some ss \<Rightarrow>
                DataFrame (dict_merge (quantiles p)
                     (map (\<lambda>is. (''sample_'' @ str_nat (fst is), snd is)) (enumerate 0 ss)))
                  (map (\<lambda>i. t + int i * step) [0 ..< length q0]))"
  using assms by (simp add: decode_response_def DatetimeIndex_def split: option.splits)

lemma decode_response_cases:
  assumes "quantiles p = (k0, q0) # qs"
  shows "(\<exists>e. decode_response (p # rest) freq t rs = Inl e)
       \<or> (\<exists>b step. (\<forall>k\<in>fst ` set b. prefix ''sample_'' k) \<and> (\<not> rs \<longrightarrow> b = []) \<and> freq = Some step \<and>
             decode_response (p # rest) freq t rs =
               DataFrame (dict_merge (quantiles p) b) (map (\<lambda>i. t + int i * step) [0 ..< length q0]))"
proof (cases freq)
  case None
  then show ?thesis
    using decode_response_no_freq[OF assms] by simp
next
  case (Some step)
  show ?thesis
  proof (cases rs)
    case False
    then show ?thesis
      using Some decode_response_quantiles_only[OF assms, of rest step t] by auto
  next
    case True
    show ?thesis
    proof (cases "samples p")
      case None
      then show ?thesis
        using True Some decode_response_with_samples[OF assms, of rest step t] by simp
    next
      case (Some ss)
      let ?b = "map (\<lambda>is. (''sample_'' @ str_nat (fst is), snd is)) (enumerate 0 ss)"
      have pre: "\<forall>k\<in>fst ` set ?b. prefix ''sample_'' k"
        by auto
      have "decode_response (p # rest) freq t rs =
              DataFrame (dict_merge (quantiles p) ?b) (map (\<lambda>i. t + int i * step) [0 ..< length q0])"
        using True \<open>freq = Some step\<close> Some decode_response_with_samples[OF assms, of rest step t]
        by simp
      with pre True \<open>freq = Some step\<close> show ?thesis
        by blast
    qed
  qed
qed


text \<open>
  Claim C2 as stated fails: when samples were requested and the response carries a
  \<^verbatim>\<open>samples\<close> field that holds no sample array, the decoder does not fail; it returns
  the table of the quantile columns.
\<close>

theorem empty_samples_accepted_counterexample:
  "decode_response
     [\<lparr>quantiles = [(''0.1'', [PFloat (Finite 1), PFloat (Finite 2)]),
                    (''0.9'', [PFloat (Finite 3), PFloat (Finite 4)])],
       samples = Some []\<rparr>] (Some 1) 10 True =
   Inr \<lparr>df_index = [10, 11],
        df_columns = [(''0.1'', [PFloat (Finite 1), PFloat (Finite 2)]),
                      (''0.9'', [PFloat (Finite 3), PFloat (Finite 4)])]\<rparr>"
  by (simp add: decode_response_def DatetimeIndex_def dict_merge_def DataFrame_def
        sanitize_array_def convert_objects_def upt_rec)

text \<open>
  Claim C2, amended. For a response whose first prediction has a first quantile array
  \<open>q0\<close>: a decoded table has an index of the length of \<open>q0\<close> and every column of
  that length; decoding fails when samples were requested and the prediction has no
  \<^verbatim>\<open>samples\<close> field; decoding fails when a quantile array, under a key that is not of
  the form \<^verbatim>\<open>sample_...\<close>, has a length that is neither the length of \<open>q0\<close> nor one
  (a one-element array is repeated by the table constructor); and when samples were
  requested and the \<^verbatim>\<open>samples\<close> field is an empty list, a response whose quantile
  arrays agree in length is decoded to the table of its quantile columns, as the table
  constructor stores them.
\<close>

theorem decode_response_validation:
  assumes "quantiles p = (k0, q0) # qs"
  shows
    "(\<forall>df. decode_response (p # rest) freq t rs = Inr df \<longrightarrow>
        length (df_index df) = length q0
        \<and> list_all (\<lambda>c. length (snd c) = length q0) (df_columns df))
     \<and> (rs \<and> samples p = None \<longrightarrow> (\<exists>e. decode_response (p # rest) freq t rs = Inl e))
     \<and> (\<forall>k c. distinct (map fst (quantiles p)) \<and> (k, c) \<in> set (quantiles p)
            \<and> \<not> prefix ''sample_'' k \<and> length c \<noteq> length q0 \<and> length c \<noteq> 1 \<longrightarrow>
          (\<exists>e. decode_response (p # rest) freq t rs = Inl e))
     \<and> (rs \<and> samples p = Some [] \<and> distinct (map fst (quantiles p))
          \<and> list_all (\<lambda>c. length (snd c) = length q0) (quantiles p) \<longrightarrow>
          decode_response (p # rest) (Some step) t rs =
            Inr \<lparr>df_index = map (\<lambda>i. t + int i * step) [0 ..< length q0],
                 df_columns = map (\<lambda>kv. (fst kv, convert_objects (snd kv))) (quantiles p)\<rparr>)"
proof -
  note cases = decode_response_cases[OF assms, of rest freq t rs]
  have len: "length (df_index df) = length q0
        \<and> list_all (\<lambda>c. length (snd c) = length q0) (df_columns df)"
    if ok: "decode_response (p # rest) freq t rs = Inr df" for df
  proof -
    from cases ok have "\<exists>b step. decode_response (p # rest) freq t rs =
               DataFrame (dict_merge (quantiles p) b) (map (\<lambda>i. t + int i * step) [0 ..< length q0])"
      by fastforce
    then obtain b step where
      "DataFrame (dict_merge (quantiles p) b) (map (\<lambda>i. t + int i * step) [0 ..< length q0]) = Inr df"
      using ok by force
    from DataFrame_Inr(1,3)[OF this] show ?thesis
      by simp
  qed
  have nosamples: "\<exists>e. decode_response (p # rest) freq t rs = Inl e"
    if "rs" "samples p = None"
  proof (cases freq)
    case None
    then show ?thesis using decode_response_no_freq[OF assms] by simp
  next
    case (Some step)
    then show ?thesis
      using that decode_response_with_samples[OF assms, of rest step t] by simp
  qed
  have mismatch: "\<exists>e. decode_response (p # rest) freq t rs = Inl e"
    if d: "distinct (map fst (quantiles p))" and mem: "(k, c) \<in> set (quantiles p)"
      and np: "\<not> prefix ''sample_'' k" and l: "length c \<noteq> length q0" "length c \<noteq> 1"
    for k c
  proof -
    from cases show ?thesis
    proof
      assume "\<exists>e. decode_response (p # rest) freq t rs = Inl e"
      then show ?thesis .
    next
      assume "\<exists>b step. (\<forall>k\<in>fst ` set b. prefix ''sample_'' k) \<and> (\<not> rs \<longrightarrow> b = []) \<and> freq = Some step \<and>
             decode_response (p # rest) freq t rs =
               DataFrame (dict_merge (quantiles p) b) (map (\<lambda>i. t + int i * step) [0 ..< length q0])"
      then obtain b step where b: "\<forall>k\<in>fst ` set b. prefix ''sample_'' k"
        and eq: "decode_response (p # rest) freq t rs =
               DataFrame (dict_merge (quantiles p) b) (map (\<lambda>i. t + int i * step) [0 ..< length q0])"
        by blast
      have "k \<notin> fst ` set b"
        using b np by blast
      then have "(k, c) \<in> set (dict_merge (quantiles p) b)"
        using dict_merge_keeps[OF d mem] by simp
      then have "DataFrame (dict_merge (quantiles p) b) (map (\<lambda>i. t + int i * step) [0 ..< length q0])
                   = Inl ValueError"
        using l by (intro DataFrame_bad_column[of k c]) simp_all
      with eq show ?thesis by simp
    qed
  qed
  have empty: "decode_response (p # rest) (Some step) t rs =
            Inr \<lparr>df_index = map (\<lambda>i. t + int i * step) [0 ..< length q0],
                 df_columns = map (\<lambda>kv. (fst kv, convert_objects (snd kv))) (quantiles p)\<rparr>"
    if "rs" "samples p = Some []" "distinct (map fst (quantiles p))"
       "list_all (\<lambda>c. length (snd c) = length q0) (quantiles p)"
  proof -
    have "decode_response (p # rest) (Some step) t rs =
            DataFrame (quantiles p) (map (\<lambda>i. t + int i * step) [0 ..< length q0])"
      using that(1,2,3) decode_response_with_samples[OF assms, of rest step t]
      by (simp add: dict_merge_empty)
    then show ?thesis
      using that(4) DataFrame_all_fit[of "map (\<lambda>i. t + int i * step) [0 ..< length q0]" "quantiles p"]
      by simp
  qed
  from len nosamples mismatch empty show ?thesis
    by blast
qed

theorem decode_response_validation_witness:
  "(\<exists>e. decode_response
          [\<lparr>quantiles = [(''0.1'', [PFloat (Finite 1), PFloat (Finite 2)]),
                         (''0.9'', [PFloat (Finite 3), PFloat (Finite 4)])],
            samples = None\<rparr>] (Some 1) 10 True = Inl e)
   \<and> (\<exists>e. decode_response
          [\<lparr>quantiles = [(''0.1'', [PFloat (Finite 1), PFloat (Finite 2), PFloat (Finite 5)]),
                         (''0.9'', [PFloat (Finite 3), PFloat (Finite 4)])],
            samples = None\<rparr>] (Some 1) 10 False = Inl e)
   \<and> decode_response
          [\<lparr>quantiles = [(''0.1'', [PFloat (Finite 1), PFloat (Finite 2)]),
                         (''0.9'', [PFloat (Finite 3), PFloat (Finite 4)])],
            samples = Some []\<rparr>] (Some 1) 10 True =
        Inr \<lparr>df_index = [10, 11],
             df_columns = [(''0.1'', [PFloat (Finite 1), PFloat (Finite 2)]),
                           (''0.9'', [PFloat (Finite 3), PFloat (Finite 4)])]\<rparr>
   \<and> length (df_index \<lparr>df_index = [10, 11],
             df_columns = [(''0.1'', [PFloat (Finite 1), PFloat (Finite 2)]),
                           (''0.9'', [PFloat (Finite 3), PFloat (Finite 4)])]\<rparr>) = 2"
proof -
  let ?qa = "[(''0.1'', [PFloat (Finite 1), PFloat (Finite 2)]),
              (''0.9'', [PFloat (Finite 3), PFloat (Finite 4)])]"
  let ?qb = "[(''0.1'', [PFloat (Finite 1), PFloat (Finite 2), PFloat (Finite 5)]),
              (''0.9'', [PFloat (Finite 3), PFloat (Finite 4)])]"
  let ?pa = "\<lparr>quantiles = ?qa, samples = None\<rparr>"
  let ?pb = "\<lparr>quantiles = ?qb, samples = None\<rparr>"
  let ?pc = "\<lparr>quantiles = ?qa, samples = Some []\<rparr>"
  have qa: "quantiles ?pa = (''0.1'', [PFloat (Finite 1), PFloat (Finite 2)])
              # [(''0.9'', [PFloat (Finite 3), PFloat (Finite 4)])]"
    by simp
  have qb: "quantiles ?pb = (''0.1'', [PFloat (Finite 1), PFloat (Finite 2), PFloat (Finite 5)])
              # [(''0.9'', [PFloat (Finite 3), PFloat (Finite 4)])]"
    by simp
  have qc: "quantiles ?pc = (''0.1'', [PFloat (Finite 1), PFloat (Finite 2)])
              # [(''0.9'', [PFloat (Finite 3), PFloat (Finite 4)])]"
    by simp
  have "True \<and> samples ?pa = None \<longrightarrow> (\<exists>e. decode_response [?pa] (Some 1) 10 True = Inl e)"
    by (rule decode_response_validation[OF qa, of "[]" "Some 1" 10 True,
          THEN conjunct2, THEN conjunct1])
  then have a: "\<exists>e. decode_response [?pa] (Some 1) 10 True = Inl e"
    by simp
  have "\<forall>k c. distinct (map fst (quantiles ?pb)) \<and> (k, c) \<in> set (quantiles ?pb)
            \<and> \<not> prefix ''sample_'' k
            \<and> length c \<noteq> length [PFloat (Finite 1), PFloat (Finite 2), PFloat (Finite 5)]
            \<and> length c \<noteq> 1 \<longrightarrow>
          (\<exists>e. decode_response [?pb] (Some 1) 10 False = Inl e)"
    by (rule decode_response_validation[OF qb, of "[]" "Some 1" 10 False,
          THEN conjunct2, THEN conjunct2, THEN conjunct1])
  from this[rule_format, of "''0.9''" "[PFloat (Finite 3), PFloat (Finite 4)]"]
  have b: "\<exists>e. decode_response [?pb] (Some 1) 10 False = Inl e"
    by simp
  have "True \<and> samples ?pc = Some [] \<and> distinct (map fst (quantiles ?pc))
          \<and> list_all (\<lambda>c. length (snd c) = length [PFloat (Finite 1), PFloat (Finite 2)])
               (quantiles ?pc) \<longrightarrow>
          decode_response [?pc] (Some 1) 10 True =
            Inr \<lparr>df_index = map (\<lambda>i. 10 + int i * 1) [0 ..< length [PFloat (Finite 1), PFloat (Finite 2)]],
                 df_columns = map (\<lambda>kv. (fst kv, convert_objects (snd kv))) (quantiles ?pc)\<rparr>"
    by (rule decode_response_validation[OF qc, of "[]" "Some 1" 10 True 1,
          THEN conjunct2, THEN conjunct2, THEN conjunct2])
  then have c: "decode_response [?pc] (Some 1) 10 True =
        Inr \<lparr>df_index = [10, 11], df_columns = ?qa\<rparr>"
    by (simp add: upt_rec convert_objects_def)
  have "\<forall>df. decode_response [?pc] (Some 1) 10 True = Inr df \<longrightarrow>
        length (df_index df) = length [PFloat (Finite 1), PFloat (Finite 2)]
        \<and> list_all (\<lambda>c. length (snd c) = length [PFloat (Finite 1), PFloat (Finite 2)]) (df_columns df)"
    by (rule decode_response_validation[OF qc, of "[]" "Some 1" 10 True,
          THEN conjunct1])
  from this[rule_format, OF c]
  have d: "length (df_index \<lparr>df_index = [10, 11], df_columns = ?qa\<rparr>) = 2"
    by simp
  from a b c d show ?thesis
    by (intro conjI)
qed







section \<open>Properties of the merge step\<close>

lemma first_seen_set: "set (first_seen xs) = set xs"
  by (simp add: first_seen_def)

lemma first_seen_distinct: "distinct (first_seen xs)"
  by (simp add: first_seen_def)

lemma join_group_time: "r \<in> set (join_group left right k) \<Longrightarrow> fst r = k"
  by (auto simp: join_group_def Let_def split: if_splits)

lemma length_concat_product:
  "length (concat (map (\<lambda>l. map (f l) rs) ls)) = length ls * length rs"
  by (induction ls) auto

lemma length_join_group:
  "length (join_group left right k) =
     (let l = length (filter (\<lambda>x. fst x = k) left);
          c = length (filter (\<lambda>x. fst x = k) right)
      in if c = 0 then l else if l = 0 then c else l * c)"
  by (simp add: join_group_def Let_def length_concat_product)

lemma filter_concat_groups:
  assumes "distinct ks" and "\<And>k r. r \<in> set (g k) \<Longrightarrow> fst r = k"
  shows "filter (\<lambda>r. fst r = t) (concat (map g ks)) = (if t \<in> set ks then g t else [])"
  using assms(1)
proof (induction ks)
  case Nil
  then show ?case by simp
next
  case (Cons k ks)
  have here: "filter (\<lambda>r. fst r = t) (g k) = (if k = t then g t else [])"
    using assms(2)[of _ k] by (auto simp: filter_empty_conv filter_id_conv)
  have "t \<notin> set ks" if "k = t"
    using that Cons.prems by simp
  then show ?case
    using Cons here by auto
qed

lemma rows_at_merge_outer:
  "rows_at t (merge_outer left right) =
     (let l = length (filter (\<lambda>x. fst x = t) left);
          c = length (filter (\<lambda>x. fst x = t) right)
      in if c = 0 then l else if l = 0 then c else l * c)"
proof -
  let ?ks = "first_seen (map fst left @ map fst right)"
  have "filter (\<lambda>r. fst r = t) (merge_outer left right) =
          (if t \<in> set ?ks then join_group left right t else [])"
    unfolding merge_outer_def
    by (rule filter_concat_groups[OF first_seen_distinct]) (rule join_group_time)
  then have "rows_at t (merge_outer left right) =
          (if t \<in> set ?ks then length (join_group left right t) else 0)"
    by (simp add: rows_at_def)
  moreover have "length (filter (\<lambda>x. fst x = t) left) = 0 \<and> length (filter (\<lambda>x. fst x = t) right) = 0"
    if "t \<notin> set ?ks"
    using that by (auto simp: first_seen_set filter_empty_conv)
  ultimately show ?thesis
    by (auto simp: length_join_group Let_def)
qed

lemma rows_of_merge_outer:
  "filter (\<lambda>x. fst x = t) (merge_outer left right) =
     (let ls = filter (\<lambda>l. fst l = t) left;
          rs = filter (\<lambda>r. fst r = t) right
      in if rs = [] then map (\<lambda>l. (t, snd l, NaN, NaN, NaN)) ls
         else if ls = [] then map (\<lambda>r. (t, NaN, snd r)) rs
         else concat (map (\<lambda>l. map (\<lambda>r. (t, snd l, snd r)) rs) ls))"
proof -
  let ?ks = "first_seen (map fst left @ map fst right)"
  have flt: "filter (\<lambda>r. fst r = t) (merge_outer left right) =
          (if t \<in> set ?ks then join_group left right t else [])"
    unfolding merge_outer_def
    by (rule filter_concat_groups[OF first_seen_distinct]) (rule join_group_time)
  show ?thesis
  proof (cases "t \<in> set ?ks")
    case True
    then show ?thesis
      unfolding flt by (simp add: join_group_def)
  next
    case False
    then have "filter (\<lambda>l. fst l = t) left = []" "filter (\<lambda>r. fst r = t) right = []"
      by (auto simp: first_seen_set filter_empty_conv)
    with False show ?thesis
      unfolding flt by simp
  qed
qed

lemma remdups_adj_replicate_append:
  assumes "0 < n" and "ys = [] \<or> hd ys \<noteq> k"
  shows "remdups_adj (replicate n k @ ys) = k # remdups_adj ys"
  using assms(1)
proof (induction n)
  case 0
  then show ?case by simp
next
  case (Suc n)
  show ?case
  proof (cases n)
    case 0
    then show ?thesis
      using assms(2) by (cases ys) auto
  next
    case (Suc m)
    then have "remdups_adj (replicate n k @ ys) = k # remdups_adj ys"
      using Suc.IH by simp
    then show ?thesis
      using Suc by simp
  qed
qed

lemma remdups_adj_groups:
  assumes "distinct ks" and "\<forall>k\<in>set ks. 0 < n k"
  shows "remdups_adj (concat (map (\<lambda>k. replicate (n k) k) ks)) = ks"
  using assms
proof (induction ks)
  case Nil
  then show ?case by simp
next
  case (Cons k ks)
  let ?rest = "concat (map (\<lambda>k. replicate (n k) k) ks)"
  have "set ?rest \<subseteq> set ks"
    by auto
  then have "?rest = [] \<or> hd ?rest \<noteq> k"
    using Cons.prems(1) by (cases ?rest) auto
  then have "remdups_adj (replicate (n k) k @ ?rest) = k # remdups_adj ?rest"
    using Cons.prems(2) by (intro remdups_adj_replicate_append) simp_all
  then show ?case
    using Cons by simp
qed

lemma timestamps_of_merge_outer:
  "remdups_adj (map fst (merge_outer left right)) = first_seen (map fst left @ map fst right)"
proof -
  let ?ks = "first_seen (map fst left @ map fst right)"
  let ?n = "\<lambda>k. length (join_group left right k)"
  have "map fst (join_group left right k) = replicate (?n k) k" for k
    using join_group_time[of _ left right k]
    by (intro replicate_eqI) auto
  then have "map fst (merge_outer left right) = concat (map (\<lambda>k. replicate (?n k) k) ?ks)"
    by (simp add: merge_outer_def map_concat comp_def)
  moreover have "\<forall>k\<in>set ?ks. 0 < ?n k"
  proof
    fix k
    assume "k \<in> set ?ks"
    then have "filter (\<lambda>x. fst x = k) left \<noteq> [] \<or> filter (\<lambda>x. fst x = k) right \<noteq> []"
      by (auto simp: first_seen_set filter_empty_conv)
    then show "0 < ?n k"
      by (auto simp: length_join_group Let_def)
  qed
  ultimately show ?thesis
    using remdups_adj_groups[of ?ks ?n, OF first_seen_distinct] by simp
qed

lemma in_concat_map: "x \<in> set (f l) \<Longrightarrow> l \<in> set ls \<Longrightarrow> x \<in> set (concat (map f ls))"
  by auto

lemma forecast_row_kept:
  assumes "row \<in> set right"
  shows "\<exists>p. (fst row, p, snd row) \<in> set (merge_outer left right)"
proof -
  let ?t = "fst row"
  let ?ls = "filter (\<lambda>l. fst l = ?t) left"
  let ?rs = "filter (\<lambda>r. fst r = ?t) right"
  have rs: "row \<in> set ?rs"
    using assms by simp
  have ne: "?rs \<noteq> []"
    using assms by (auto simp: filter_empty_conv)
  have "\<exists>p. (?t, p, snd row) \<in> set (filter (\<lambda>x. fst x = ?t) (merge_outer left right))"
  proof (cases "?ls = []")
    case True
    have "(?t, NaN, snd row) \<in> set (map (\<lambda>r. (?t, NaN, snd r)) ?rs)"
      using rs by force
    then show ?thesis
      unfolding rows_of_merge_outer Let_def using True ne by auto
  next
    case False
    then obtain l where l: "l \<in> set ?ls"
      by (cases ?ls) auto
    have "(?t, snd l, snd row) \<in> set (map (\<lambda>r. (?t, snd l, snd r)) ?rs)"
      using rs by force
    then have "(?t, snd l, snd row) \<in> set (concat (map (\<lambda>l. map (\<lambda>r. (?t, snd l, snd r)) ?rs) ?ls))"
      using l by (rule in_concat_map)
    then show ?thesis
      unfolding rows_of_merge_outer Let_def using False ne by auto
  qed
  then show ?thesis
    by auto
qed

text \<open>
  Claim C6. Appending result frames concatenates their rows, and the outer merge keeps
  every one of them with its own values. At a timestamp the merged table holds, in this
  order: for every ground-truth row there, one row per result row of the first call and
  then of the second, each pairing the price with that result row's values; when the
  ground truth has no row there, the result rows of the first call and then of the
  second, with a missing price; when no result has a row there, the ground-truth rows
  with missing percentiles. The timestamps appear in blocks, in the order of their
  first occurrence in the ground truth, then the first call, then the second. Hence
  every result row of either call is in the merged table unchanged, and merging a
  result appended to itself gives, at every timestamp of the result, twice the rows of
  merging it once: the merge is not idempotent, and for a non-empty result the two
  tables differ. The merged table is thereby fixed by its inputs, rows and order.
\<close>

theorem merge_concatenates:
  "filter (\<lambda>x. fst x = t) (merge_outer left (append_frames r1 r2)) =
     (let ls = filter (\<lambda>l. fst l = t) left;
          rs = filter (\<lambda>r. fst r = t) r1 @ filter (\<lambda>r. fst r = t) r2
      in if rs = [] then map (\<lambda>l. (t, snd l, NaN, NaN, NaN)) ls
         else if ls = [] then map (\<lambda>r. (t, NaN, snd r)) rs
         else concat (map (\<lambda>l. map (\<lambda>r. (t, snd l, snd r)) rs) ls))
   \<and> remdups_adj (map fst (merge_outer left (append_frames r1 r2))) =
       first_seen (map fst left @ map fst r1 @ map fst r2)
   \<and> (\<forall>row\<in>set r1 \<union> set r2.
         \<exists>p. (fst row, p, snd row) \<in> set (merge_outer left (append_frames r1 r2)))
   \<and> (\<forall>u\<in>fst ` set r. rows_at u (merge_outer left (append_frames r r)) =
                           2 * rows_at u (merge_outer left r)
                         \<and> 0 < rows_at u (merge_outer left r))
   \<and> (r \<noteq> [] \<longrightarrow> merge_outer left (append_frames r r) \<noteq> merge_outer left r)"
proof -
  have rows: "filter (\<lambda>x. fst x = t) (merge_outer left (append_frames r1 r2)) =
     (let ls = filter (\<lambda>l. fst l = t) left;
          rs = filter (\<lambda>r. fst r = t) r1 @ filter (\<lambda>r. fst r = t) r2
      in if rs = [] then map (\<lambda>l. (t, snd l, NaN, NaN, NaN)) ls
         else if ls = [] then map (\<lambda>r. (t, NaN, snd r)) rs
         else concat (map (\<lambda>l. map (\<lambda>r. (t, snd l, snd r)) rs) ls))"
    unfolding rows_of_merge_outer append_frames_def by simp
  have order: "remdups_adj (map fst (merge_outer left (append_frames r1 r2))) =
       first_seen (map fst left @ map fst r1 @ map fst r2)"
    unfolding timestamps_of_merge_outer append_frames_def by simp
  have kept: "\<forall>row\<in>set r1 \<union> set r2.
         \<exists>p. (fst row, p, snd row) \<in> set (merge_outer left (append_frames r1 r2))"
  proof
    fix row
    assume "row \<in> set r1 \<union> set r2"
    then have "row \<in> set (append_frames r1 r2)"
      by (simp add: append_frames_def)
    then show "\<exists>p. (fst row, p, snd row) \<in> set (merge_outer left (append_frames r1 r2))"
      by (rule forecast_row_kept)
  qed
  have twice: "rows_at u (merge_outer left (append_frames r r)) = 2 * rows_at u (merge_outer left r)
                 \<and> 0 < rows_at u (merge_outer left r)"
    if "u \<in> fst ` set r" for u
  proof -
    have "filter (\<lambda>x. fst x = u) r \<noteq> []"
      using that by (auto simp: filter_empty_conv)
    then have "0 < length (filter (\<lambda>x. fst x = u) r)"
      by simp
    then show ?thesis
      by (simp add: rows_at_merge_outer append_frames_def Let_def)
  qed
  have differ: "merge_outer left (append_frames r r) \<noteq> merge_outer left r" if "r \<noteq> []"
  proof
    assume same: "merge_outer left (append_frames r r) = merge_outer left r"
    from that have "fst (hd r) \<in> fst ` set r"
      by simp
    note tw = twice[OF this]
    have "rows_at (fst (hd r)) (merge_outer left r) = 2 * rows_at (fst (hd r)) (merge_outer left r)"
      using tw[THEN conjunct1] unfolding same .
    with tw[THEN conjunct2] show False
      by linarith
  qed
  have twice': "\<forall>u\<in>fst ` set r. rows_at u (merge_outer left (append_frames r r)) =
                           2 * rows_at u (merge_outer left r)
                         \<and> 0 < rows_at u (merge_outer left r)"
    using twice by (intro ballI)
  have differ': "r \<noteq> [] \<longrightarrow> merge_outer left (append_frames r r) \<noteq> merge_outer left r"
    using differ by (intro impI)
  from rows order kept twice' differ' show ?thesis
    by (intro conjI)
qed

theorem merge_concatenates_witness:
  "merge_outer [(1, Finite 10), (2, Finite 20)]
     (append_frames [(2, Finite 1, Finite 2, Finite 3), (3, Finite 4, Finite 5, Finite 6)]
                    [(3, Finite 7, Finite 8, Finite 9), (4, Finite 1, Finite 1, Finite 1)]) =
     [(1, Finite 10, NaN, NaN, NaN),
      (2, Finite 20, Finite 1, Finite 2, Finite 3),
      (3, NaN, Finite 4, Finite 5, Finite 6),
      (3, NaN, Finite 7, Finite 8, Finite 9),
      (4, NaN, Finite 1, Finite 1, Finite 1)]
   \<and> filter (\<lambda>x. fst x = 3) (merge_outer [(1, Finite 10), (2, Finite 20)]
       (append_frames [(2, Finite 1, Finite 2, Finite 3), (3, Finite 4, Finite 5, Finite 6)]
                      [(3, Finite 7, Finite 8, Finite 9), (4, Finite 1, Finite 1, Finite 1)])) =
     [(3, NaN, Finite 4, Finite 5, Finite 6), (3, NaN, Finite 7, Finite 8, Finite 9)]
   \<and> (\<exists>p. (3, p, Finite 4, Finite 5, Finite 6) \<in> set (merge_outer [(1, Finite 10), (2, Finite 20)]
       (append_frames [(2, Finite 1, Finite 2, Finite 3), (3, Finite 4, Finite 5, Finite 6)]
                      [(3, Finite 7, Finite 8, Finite 9), (4, Finite 1, Finite 1, Finite 1)])))
   \<and> rows_at 3 (merge_outer [(1, Finite 10), (2, Finite 20)]
        (append_frames [(2, Finite 1, Finite 2, Finite 3), (3, Finite 4, Finite 5, Finite 6)]
                       [(2, Finite 1, Finite 2, Finite 3), (3, Finite 4, Finite 5, Finite 6)])) =
       2 * rows_at 3 (merge_outer [(1, Finite 10), (2, Finite 20)]
             [(2, Finite 1, Finite 2, Finite 3), (3, Finite 4, Finite 5, Finite 6)])
   \<and> merge_outer [(1, Finite 10), (2, Finite 20)]
        (append_frames [(2, Finite 1, Finite 2, Finite 3), (3, Finite 4, Finite 5, Finite 6)]
                       [(2, Finite 1, Finite 2, Finite 3), (3, Finite 4, Finite 5, Finite 6)]) \<noteq>
       merge_outer [(1, Finite 10), (2, Finite 20)]
         [(2, Finite 1, Finite 2, Finite 3), (3, Finite 4, Finite 5, Finite 6)]"
proof -
  let ?left = "[(1, Finite 10), (2, Finite 20)] :: left_row list"
  let ?r = "[(2, Finite 1, Finite 2, Finite 3), (3, Finite 4, Finite 5, Finite 6)] :: right_row list"
  let ?r2 = "[(3, Finite 7, Finite 8, Finite 9), (4, Finite 1, Finite 1, Finite 1)] :: right_row list"
  note th = merge_concatenates[of 3 ?left ?r ?r2 ?r]
  have a: "merge_outer ?left (append_frames ?r ?r2) =
     [(1, Finite 10, NaN, NaN, NaN),
      (2, Finite 20, Finite 1, Finite 2, Finite 3),
      (3, NaN, Finite 4, Finite 5, Finite 6),
      (3, NaN, Finite 7, Finite 8, Finite 9),
      (4, NaN, Finite 1, Finite 1, Finite 1)]"
    by (simp add: merge_outer_def append_frames_def first_seen_def join_group_def)
  have b: "filter (\<lambda>x. fst x = 3) (merge_outer ?left (append_frames ?r ?r2)) =
     [(3, NaN, Finite 4, Finite 5, Finite 6), (3, NaN, Finite 7, Finite 8, Finite 9)]"
    using th[THEN conjunct1] by simp
  have memrow: "(3, Finite 4, Finite 5, Finite 6) \<in> set ?r \<union> set ?r2"
    by simp
  have c: "\<exists>p. (3, p, Finite 4, Finite 5, Finite 6) \<in> set (merge_outer ?left (append_frames ?r ?r2))"
    using th[THEN conjunct2, THEN conjunct2, THEN conjunct1, rule_format, OF memrow] by simp
  have mem: "3 \<in> fst ` set ?r" and ne: "?r \<noteq> []"
    by simp_all
  have d: "rows_at 3 (merge_outer ?left (append_frames ?r ?r)) = 2 * rows_at 3 (merge_outer ?left ?r)"
    using th[THEN conjunct2, THEN conjunct2, THEN conjunct2, THEN conjunct1, rule_format, OF mem]
    by (rule conjunct1)
  have e: "merge_outer ?left (append_frames ?r ?r) \<noteq> merge_outer ?left ?r"
    using th[THEN conjunct2, THEN conjunct2, THEN conjunct2, THEN conjunct2, rule_format, OF ne] .
  from a b c d e show ?thesis
    by (intro conjI)
qed

section \<open>Properties of the upload\<close>

lemma split_str_nonempty: "split_str c s \<noteq> []"
  by (induction s) (auto split: list.splits)

lemma split_str_before_sep:
  "c \<notin> set a \<Longrightarrow> split_str c (a @ c # b) = a # split_str c b"
  by (induction a) auto

lemma join_cons_char: "join sep ((x # w) # ws) = x # join sep (w # ws)"
  by (cases ws) auto

lemma join_split_str: "join [c] (split_str c s) = s"
proof (induction s)
  case Nil
  then show ?case by simp
next
  case (Cons x xs)
  obtain w ws where sp: "split_str c xs = w # ws"
    using split_str_nonempty[of c xs] by (cases "split_str c xs") auto
  show ?case
    using Cons sp by (auto simp: join_cons_char)
qed

lemma s3_path_parse:
  assumes "CHR ''/'' \<notin> set bucket"
  shows "prefix ''s3://'' (''s3://'' @ bucket @ ''/'' @ key)"
    and "split_str CHR ''/'' (''s3://'' @ bucket @ ''/'' @ key) ! 2 = bucket"
    and "join ''/'' (drop 3 (split_str CHR ''/'' (''s3://'' @ bucket @ ''/'' @ key))) = key"
proof -
  have sp: "split_str CHR ''/'' (''s3://'' @ bucket @ ''/'' @ key) =
              ''s3:'' # [] # bucket # split_str CHR ''/'' key"
    using split_str_before_sep[OF assms, of key] by simp
  show "prefix ''s3://'' (''s3://'' @ bucket @ ''/'' @ key)"
    by simp
  show "split_str CHR ''/'' (''s3://'' @ bucket @ ''/'' @ key) ! 2 = bucket"
    unfolding sp by simp
  show "join ''/'' (drop 3 (split_str CHR ''/'' (''s3://'' @ bucket @ ''/'' @ key))) = key"
    unfolding sp using join_split_str[of "CHR ''/''" key] by simp
qed

lemma copy_to_s3_skips:
  assumes "CHR ''/'' \<notin> set bucket"
    and "map_of (s3 w) bucket = Some buk"
    and "(k, body) \<in> set buk"
    and "prefix key k"
  shows "copy_to_s3 s3_bucket files local_file (''s3://'' @ bucket @ ''/'' @ key) False w =
           (None, w\<lparr>stdout := stdout w @ [AlreadyExists s3_bucket (''s3://'' @ bucket @ ''/'' @ key)]\<rparr>)"
proof -
  have "filter (\<lambda>obj. prefix key (fst obj)) buk \<noteq> []"
    using assms(3,4) by (force simp: filter_empty_conv)
  then show ?thesis
    unfolding copy_to_s3_def Let_def s3_path_parse[OF assms(1)]
    using assms(2) by simp
qed

text \<open>
  Claim C8. An upload to \<^verbatim>\<open>s3://bucket/key\<close> without override, when the bucket holds
  an object under that key, raises nothing, prints the warning and returns: the object
  store after the call is the object store before it.
\<close>

theorem existing_object_left_unchanged:
  assumes "CHR ''/'' \<notin> set bucket"
    and "map_of (s3 w) bucket = Some buk"
    and "map_of buk key = Some body"
  shows "copy_to_s3 s3_bucket files local_file (''s3://'' @ bucket @ ''/'' @ key) False w =
           (None, w\<lparr>stdout := stdout w @ [AlreadyExists s3_bucket (''s3://'' @ bucket @ ''/'' @ key)]\<rparr>)
         \<and> s3 (snd (copy_to_s3 s3_bucket files local_file (''s3://'' @ bucket @ ''/'' @ key) False w)) = s3 w"
proof -
  have "(key, body) \<in> set buk"
    using assms(3) by (rule map_of_SomeD)
  from copy_to_s3_skips[OF assms(1,2) this, of key s3_bucket files local_file]
  show ?thesis by simp
qed

theorem existing_object_left_unchanged_witness:
  "CHR ''/'' \<notin> set ''b''
   \<and> copy_to_s3 ''def'' [(''train.json'', ''new'')] ''train.json'' ''s3://b/data/train.json'' False
        \<lparr>s3 = [(''b'', [(''data/train.json'', ''old'')])], stdout = []\<rparr> =
      (None, \<lparr>s3 = [(''b'', [(''data/train.json'', ''old'')])],
              stdout = [AlreadyExists ''def'' ''s3://b/data/train.json'']\<rparr>)"
proof -
  let ?w = "\<lparr>s3 = [(''b'', [(''data/train.json'', ''old'')])], stdout = []\<rparr>"
  have a: "CHR ''/'' \<notin> set ''b''"
    by simp
  have b: "map_of (s3 ?w) ''b'' = Some [(''data/train.json'', ''old'')]"
    by simp
  have c: "map_of [(''data/train.json'', ''old'')] ''data/train.json'' = Some ''old''"
    by simp
  from existing_object_left_unchanged[OF a b c, of "''def''" "[(''train.json'', ''new'')]" "''train.json''"] a
  show ?thesis by simp
qed

text \<open>
  Claim C9. The existence test lists the objects whose key starts with the destination
  key. When the bucket holds an object whose key strictly extends the destination key,
  and no object under the destination key itself, an upload without override is
  skipped with the warning that the file already exists: the bucket is unchanged and
  still has no object under the destination key.
\<close>

theorem prefix_match_blocks_upload:
  assumes "CHR ''/'' \<notin> set bucket"
    and "map_of (s3 w) bucket = Some buk"
    and "(k, body) \<in> set buk"
    and "strict_prefix key k"
    and "key \<notin> fst ` set buk"
  shows "copy_to_s3 s3_bucket files local_file (''s3://'' @ bucket @ ''/'' @ key) False w =
           (None, w\<lparr>stdout := stdout w @ [AlreadyExists s3_bucket (''s3://'' @ bucket @ ''/'' @ key)]\<rparr>)
         \<and> map_of (s3 (snd (copy_to_s3 s3_bucket files local_file
               (''s3://'' @ bucket @ ''/'' @ key) False w))) bucket = Some buk
         \<and> map_of buk key = None"
proof -
  have "prefix key k"
    using assms(4) by (simp add: strict_prefix_def)
  from copy_to_s3_skips[OF assms(1,2,3) this, of s3_bucket files local_file]
  show ?thesis
    using assms(2,5) by (simp add: map_of_eq_None_iff)
qed

theorem prefix_match_blocks_upload_witness:
  "CHR ''/'' \<notin> set ''b''
   \<and> strict_prefix ''data/train.json'' ''data/train.json.bak''
   \<and> copy_to_s3 ''def'' [(''train.json'', ''new'')] ''train.json'' ''s3://b/data/train.json'' False
        \<lparr>s3 = [(''b'', [(''data/train.json.bak'', ''old'')])], stdout = []\<rparr> =
      (None, \<lparr>s3 = [(''b'', [(''data/train.json.bak'', ''old'')])],
              stdout = [AlreadyExists ''def'' ''s3://b/data/train.json'']\<rparr>)
   \<and> map_of [(''data/train.json.bak'', ''old'')] ''data/train.json'' = None"
proof -
  let ?w = "\<lparr>s3 = [(''b'', [(''data/train.json.bak'', ''old'')])], stdout = []\<rparr>"
  have a: "CHR ''/'' \<notin> set ''b''"
    by simp
  have b: "map_of (s3 ?w) ''b'' = Some [(''data/train.json.bak'', ''old'')]"
    by simp
  have c: "(''data/train.json.bak'', ''old'') \<in> set [(''data/train.json.bak'', ''old'')]"
    by simp
  have d: "strict_prefix ''data/train.json'' ''data/train.json.bak''"
    by (simp add: strict_prefix_def)
  have e: "''data/train.json'' \<notin> fst ` set [(''data/train.json.bak'', ''old'')]"
    by simp
  from prefix_match_blocks_upload[OF a b c d e, of "''def''" "[(''train.json'', ''new'')]" "''train.json''"] a d
  show ?thesis by simp
qed

end
